theory Spec2Isabelle
  imports Complex_Main
begin

section \<open>The arbitrary-precision decimal values of the SDK\<close>

text \<open>
  Every quantity of \<^verbatim>\<open>SwapMath\<close> is a \<^verbatim>\<open>BigNumber\<close> of the library bignumber.js, which the
  repository uses with its default configuration (no call of \<^verbatim>\<open>BigNumber.config\<close> or
  \<^verbatim>\<open>BigNumber.set\<close> anywhere): \<^verbatim>\<open>DECIMAL_PLACES = 20\<close> and \<^verbatim>\<open>ROUNDING_MODE = ROUND_HALF_UP\<close>.
  A value is a finite decimal, one of the two infinities, or NaN. Finite values are
  modelled as rationals; negative zero is identified with zero (no path of \<^verbatim>\<open>SwapMath\<close>
  divides by a negative zero when its arguments are non-negative integers).

  \<^item> \<^verbatim>\<open>plus\<close>, \<^verbatim>\<open>minus\<close> and \<^verbatim>\<open>multipliedBy\<close> are exact.
  \<^item> \<^verbatim>\<open>dividedBy\<close> and \<^verbatim>\<open>sqrt\<close> return the exact result rounded to 20 decimal places, half
    away from zero; a non-zero value divided by zero is an infinity, zero by zero is NaN;
    they never throw.
  \<^item> \<^verbatim>\<open>integerValue(ROUND_DOWN)\<close> truncates towards zero.
  \<^item> A comparison with NaN is false.
\<close>

datatype bignumber = Fin rat | PosInf | NegInf | NaN

definition DECIMAL_PLACES :: nat where
  "DECIMAL_PLACES = 20"

definition round_half_up :: "rat \<Rightarrow> int" where
  "round_half_up q = (if q < 0 then - \<lfloor>- q + 1 / 2\<rfloor> else \<lfloor>q + 1 / 2\<rfloor>)"

definition round_down :: "rat \<Rightarrow> int" where
  "round_down q = (if q < 0 then \<lceil>q\<rceil> else \<lfloor>q\<rfloor>)"

definition to_dp :: "rat \<Rightarrow> rat" where
  "to_dp q = of_int (round_half_up (q * 10 ^ DECIMAL_PLACES)) / 10 ^ DECIMAL_PLACES"

fun floor_sqrt :: "nat \<Rightarrow> nat" where
  "floor_sqrt n =
     (if n = 0 then 0
      else let r = 2 * floor_sqrt (n div 4)
           in if (r + 1) * (r + 1) \<le> n then r + 1 else r)"

declare floor_sqrt.simps [simp del]

definition sqrt_dp :: "rat \<Rightarrow> rat" where
  \<comment> \<open>the square root of a non-negative rational, correctly rounded to 20 places\<close>
  "sqrt_dp q =
     (let s = q * 10 ^ (2 * DECIMAL_PLACES);
          r = int (floor_sqrt (nat \<lfloor>s\<rfloor>))
      in of_int (if of_int (r * r + r) + 1 / 4 \<le> s then r + 1 else r) / 10 ^ DECIMAL_PLACES)"

fun plus_bn :: "bignumber \<Rightarrow> bignumber \<Rightarrow> bignumber" where
  "plus_bn (Fin a) (Fin b) = Fin (a + b)"
| "plus_bn NaN _ = NaN"
| "plus_bn _ NaN = NaN"
| "plus_bn PosInf NegInf = NaN"
| "plus_bn NegInf PosInf = NaN"
| "plus_bn PosInf _ = PosInf"
| "plus_bn NegInf _ = NegInf"
| "plus_bn _ PosInf = PosInf"
| "plus_bn _ NegInf = NegInf"

fun negated :: "bignumber \<Rightarrow> bignumber" where
  "negated (Fin a) = Fin (- a)"
| "negated PosInf = NegInf"
| "negated NegInf = PosInf"
| "negated NaN = NaN"

definition minus_bn :: "bignumber \<Rightarrow> bignumber \<Rightarrow> bignumber" where
  "minus_bn x y = plus_bn x (negated y)"

fun multipliedBy :: "bignumber \<Rightarrow> bignumber \<Rightarrow> bignumber" where
  "multipliedBy (Fin a) (Fin b) = Fin (a * b)"
| "multipliedBy NaN _ = NaN"
| "multipliedBy _ NaN = NaN"
| "multipliedBy (Fin a) y =
     (if a = 0 then NaN else if 0 < a then y else negated y)"
| "multipliedBy x (Fin b) =
     (if b = 0 then NaN else if 0 < b then x else negated x)"
| "multipliedBy PosInf y = y"
| "multipliedBy NegInf y = negated y"

fun dividedBy :: "bignumber \<Rightarrow> bignumber \<Rightarrow> bignumber" where
  "dividedBy (Fin a) (Fin b) =
     (if b = 0 then (if a = 0 then NaN else if 0 < a then PosInf else NegInf)
      else Fin (to_dp (a / b)))"
| "dividedBy NaN _ = NaN"
| "dividedBy _ NaN = NaN"
| "dividedBy (Fin a) _ = Fin 0"
| "dividedBy x (Fin b) = (if 0 \<le> b then x else negated x)"
| "dividedBy PosInf _ = NaN"
| "dividedBy NegInf _ = NaN"

fun sqrt_bn :: "bignumber \<Rightarrow> bignumber" where
  "sqrt_bn (Fin a) = (if a < 0 then NaN else Fin (sqrt_dp a))"
| "sqrt_bn PosInf = PosInf"
| "sqrt_bn _ = NaN"

fun integerValue_ROUND_DOWN :: "bignumber \<Rightarrow> bignumber" where
  "integerValue_ROUND_DOWN (Fin a) = Fin (of_int (round_down a))"
| "integerValue_ROUND_DOWN x = x"

fun isZero :: "bignumber \<Rightarrow> bool" where
  "isZero (Fin a) = (a = 0)"
| "isZero _ = False"

fun comparedTo :: "bignumber \<Rightarrow> bignumber \<Rightarrow> int option" where
  "comparedTo (Fin a) (Fin b) = Some (if a < b then - 1 else if a = b then 0 else 1)"
| "comparedTo NaN _ = None"
| "comparedTo _ NaN = None"
| "comparedTo PosInf PosInf = Some 0"
| "comparedTo NegInf NegInf = Some 0"
| "comparedTo PosInf _ = Some 1"
| "comparedTo _ NegInf = Some 1"
| "comparedTo NegInf _ = Some (- 1)"
| "comparedTo _ PosInf = Some (- 1)"

definition isGreaterThan :: "bignumber \<Rightarrow> bignumber \<Rightarrow> bool" where
  "isGreaterThan x y = (comparedTo x y = Some 1)"

definition isLessThan :: "bignumber \<Rightarrow> bignumber \<Rightarrow> bool" where
  "isLessThan x y = (comparedTo x y = Some (- 1))"

definition isLessThanOrEqualTo :: "bignumber \<Rightarrow> bignumber \<Rightarrow> bool" where
  "isLessThanOrEqualTo x y = (comparedTo x y = Some (- 1) \<or> comparedTo x y = Some 0)"

text \<open>The amounts the engine is given are non-negative integers.\<close>

definition amount :: "nat \<Rightarrow> bignumber" where
  "amount n = Fin (of_nat n)"

text \<open>
  \<open>quot_dp a b\<close> is what \<^verbatim>\<open>a.dividedBy(b).integerValue(ROUND_DOWN)\<close> comes to on
  natural numbers (lemma \<open>integerValue_dividedBy_amount\<close> below): the quotient \<open>a div b\<close>,
  or one more when the fraction of \<open>a / b\<close> is within \<open>1 / (2 * 10 ^ 20)\<close> of one, so
  that rounding to 20 places reaches the next integer before the truncation.
\<close>

definition quot_dp :: "nat \<Rightarrow> nat \<Rightarrow> nat" where
  "quot_dp a b = (if 2 * 10 ^ 20 * (b - a mod b) \<le> b then a div b + 1 else a div b)"

section \<open>SwapMath\<close>

text \<open>
  A \<^verbatim>\<open>throw new Error(msg)\<close> of the source is a value of \<open>error\<close>: "Division by zero" is
  \<open>DivisionByZero\<close>, "U64 overflow" is \<open>Overflow\<close>, "Over limit" is \<open>OverLimit\<close>,
  "Invalid fee rate" is \<open>InvalidFeeRate\<close>, "Zero amount" is \<open>ZeroAmount\<close>, "Reserves empty" is
  \<open>EmptyReserves\<close> and "Incorrect swap" is \<open>InvariantViolation\<close>. The kind
  \<open>InsufficientLiquidity\<close> of the specification is thrown nowhere in the source.
\<close>

datatype error =
  DivisionByZero | Overflow | OverLimit | InvalidFeeRate | ZeroAmount | EmptyReserves
  | InsufficientLiquidity | InvariantViolation

definition MAX_FEE_RATE :: bignumber where
  "MAX_FEE_RATE = Fin 2000"

definition FEE_SCALE :: bignumber where
  "FEE_SCALE = Fin 10000"

definition U64_MAX :: bignumber where
  "U64_MAX = Fin 18446744073709551615"

definition mulToU128 :: "bignumber \<Rightarrow> bignumber \<Rightarrow> bignumber" where
  "mulToU128 x y = multipliedBy x y"

definition square :: "bignumber \<Rightarrow> bignumber" where
  "square y = sqrt_bn y"

definition mulDiv :: "bignumber \<Rightarrow> bignumber \<Rightarrow> bignumber \<Rightarrow> error + bignumber" where
  "mulDiv x y z =
     (if isZero z then Inl DivisionByZero
      else let result = integerValue_ROUND_DOWN (dividedBy (multipliedBy x y) z)
           in if isGreaterThan result U64_MAX then Inl Overflow else Inr result)"

definition calcOptimalCoinValues ::
  "bignumber \<Rightarrow> bignumber \<Rightarrow> bignumber \<Rightarrow> bignumber \<Rightarrow> error + bignumber \<times> bignumber" where
  "calcOptimalCoinValues coinXDesired coinYDesired coinXReserve coinYReserve =
     (if isZero coinXReserve \<and> isZero coinYReserve then Inr (coinXDesired, coinYDesired)
      else case mulDiv coinXDesired coinYReserve coinXReserve of
        Inl e \<Rightarrow> Inl e
      | Inr coinYReturned \<Rightarrow>
          if isLessThanOrEqualTo coinYReturned coinYDesired
          then Inr (coinXDesired, coinYReturned)
          else (case mulDiv coinYDesired coinXReserve coinYReserve of
            Inl e \<Rightarrow> Inl e
          | Inr coinXReturned \<Rightarrow>
              if isGreaterThan coinXReturned coinXDesired then Inl OverLimit
              else Inr (coinXReturned, coinYDesired)))"

definition getFeeToTeam :: "bignumber \<Rightarrow> bignumber \<Rightarrow> error + bignumber" where
  "getFeeToTeam feeRate coinIn =
     (case mulDiv coinIn feeRate FEE_SCALE of
        Inl e \<Rightarrow> Inl e
      | Inr fee \<Rightarrow> Inr (integerValue_ROUND_DOWN (dividedBy fee (Fin 5))))"

definition getExpectedLiquidityAmount ::
  "bignumber \<Rightarrow> bignumber \<Rightarrow> bignumber \<Rightarrow> bignumber \<Rightarrow> bignumber \<Rightarrow> error + bignumber" where
  "getExpectedLiquidityAmount optimalCoinX optimalCoinY coinXReserve coinYReserve lpSupply =
     (if isZero coinXReserve \<and> isZero coinYReserve \<and> isZero lpSupply
      then let liquidityAmount =
                 minus_bn
                   (integerValue_ROUND_DOWN (sqrt_bn (multipliedBy optimalCoinX optimalCoinY)))
                   (Fin 1000)
           in if isGreaterThan liquidityAmount U64_MAX then Inl Overflow
              else Inr liquidityAmount
      else let xLiq = integerValue_ROUND_DOWN
                        (dividedBy (multipliedBy lpSupply optimalCoinX) coinXReserve);
               yLiq = integerValue_ROUND_DOWN
                        (dividedBy (multipliedBy lpSupply optimalCoinY) coinYReserve)
           in if isLessThan xLiq yLiq
              then (if isGreaterThan xLiq U64_MAX then Inl Overflow else Inr xLiq)
              else (if isGreaterThan yLiq U64_MAX then Inl Overflow else Inr yLiq))"

text \<open>
  \<^verbatim>\<open>getAmountOut\<close> first writes a line to the console when the fee rate is zero; the line
  has no part in what the function returns or throws (no operation on a \<^verbatim>\<open>BigNumber\<close>
  throws), and \<open>getAmountOut_log\<close> is the value it prints.
\<close>

definition getAmountOut_log ::
  "bignumber \<Rightarrow> bignumber \<Rightarrow> bignumber \<Rightarrow> bignumber \<Rightarrow> bignumber option" where
  "getAmountOut_log feeRate amountIn reserveIn reserveOut =
     (if isZero feeRate
      then Some (integerValue_ROUND_DOWN
                   (dividedBy (multipliedBy reserveOut amountIn) (plus_bn reserveIn amountIn)))
      else None)"

definition getAmountOut ::
  "bignumber \<Rightarrow> bignumber \<Rightarrow> bignumber \<Rightarrow> bignumber \<Rightarrow> error + bignumber" where
  "getAmountOut feeRate amountIn reserveIn reserveOut =
     (if isGreaterThan feeRate MAX_FEE_RATE then Inl InvalidFeeRate
      else if isZero amountIn then Inl ZeroAmount
      else if isZero reserveIn \<or> isZero reserveOut then Inl EmptyReserves
      else let feeMultiplier = minus_bn FEE_SCALE feeRate;
               coinInValAfterFees = multipliedBy amountIn feeMultiplier;
               newReserveIn = plus_bn (multipliedBy reserveIn FEE_SCALE) coinInValAfterFees;
               numerator = multipliedBy coinInValAfterFees reserveOut;
               amountOut = integerValue_ROUND_DOWN (dividedBy numerator newReserveIn)
           in if isGreaterThan amountOut U64_MAX then Inl Overflow else Inr amountOut)"

definition getAmountIn ::
  "bignumber \<Rightarrow> bignumber \<Rightarrow> bignumber \<Rightarrow> bignumber \<Rightarrow> error + bignumber" where
  "getAmountIn feeRate amountOut reserveIn reserveOut =
     (if isGreaterThan feeRate MAX_FEE_RATE then Inl InvalidFeeRate
      else if isZero amountOut then Inl ZeroAmount
      else if isZero reserveIn \<or> isZero reserveOut then Inl EmptyReserves
      else let feeMultiplier = minus_bn FEE_SCALE feeRate;
               numerator = multipliedBy (multipliedBy reserveIn amountOut) FEE_SCALE;
               denominator = multipliedBy (minus_bn reserveOut amountOut) feeMultiplier;
               amountIn = plus_bn (integerValue_ROUND_DOWN (dividedBy numerator denominator))
                            (Fin 1)
           in if isGreaterThan amountIn U64_MAX then Inl Overflow else Inr amountIn)"

definition assertLpValueIsIncreased ::
  "bignumber \<Rightarrow> bignumber \<Rightarrow> bignumber \<Rightarrow> bignumber \<Rightarrow> error + unit" where
  "assertLpValueIsIncreased oldReserveX oldReserveY newReserveX newReserveY =
     (if isGreaterThan (multipliedBy oldReserveX oldReserveY)
           (multipliedBy newReserveX newReserveY)
      then Inl InvariantViolation else Inr ())"

section \<open>Division and truncation on natural numbers\<close>

text \<open>
  The quotient of two natural numbers, rounded to 20 places and then truncated, is
  \<open>quot_dp\<close>: the rounded, scaled quotient is \<open>(2 * a * 10 ^ 20 + b) div (2 * b)\<close>.
\<close>

lemma div_round_nat:
  fixes a b E :: nat
  assumes b: "0 < b" and E: "0 < E"
  shows "(2 * a * E + b) div (2 * b * E) =
         (if 2 * E * (b - a mod b) \<le> b then a div b + 1 else a div b)"
proof -
  define q r where "q = a div b" and "r = a mod b"
  have a: "a = q * b + r" and r: "r < b"
    using b by (simp_all add: q_def r_def)
  have split: "2 * a * E + b = q * (2 * b * E) + (2 * r * E + b)"
    by (simp add: a algebra_simps)
  have pos: "2 * b * E \<noteq> 0" using b E by simp
  have main: "(2 * a * E + b) div (2 * b * E) = q + (2 * r * E + b) div (2 * b * E)"
    unfolding split using pos by (rule div_mult_self3)
  have bE: "b \<le> b * E" using E by simp
  have "Suc r * E \<le> b * E" using r by (intro mult_le_mono1) simp
  hence rE: "r * E + E \<le> b * E" by simp
  have "2 * E * (b - r) + 2 * r * E = 2 * E * ((b - r) + r)"
    by (simp only: distrib_left mult.assoc mult.commute [of r E])
  hence sum: "2 * E * (b - r) + 2 * r * E = 2 * b * E"
    using r by (simp add: mult.commute)
  show ?thesis
  proof (cases "2 * E * (b - r) \<le> b")
    case True
    with sum have lo: "2 * b * E \<le> 2 * r * E + b" by linarith
    have hi: "2 * r * E + b < 2 * (2 * b * E)"
      using rE bE E by linarith
    have "(2 * r * E + b) div (2 * b * E) = 1"
      using lo hi by (intro div_nat_eqI) (simp_all add: mult.commute)
    with main True show ?thesis by (simp add: q_def r_def)
  next
    case False
    with sum have "2 * r * E + b < 2 * b * E" by linarith
    hence "(2 * r * E + b) div (2 * b * E) = 0" by simp
    with main False show ?thesis by (simp add: q_def r_def)
  qed
qed

lemma round_down_to_dp:
  fixes a b :: nat
  assumes b: "0 < b"
  shows "round_down (to_dp (rat_of_nat a / rat_of_nat b)) = int (quot_dp a b)"
proof -
  define m :: int where "m = (2 * int a * 10 ^ 20 + int b) div (2 * int b)"
  have nn: "\<not> rat_of_nat a / rat_of_nat b * 10 ^ 20 < 0"
    by (simp add: not_less)
  have "rat_of_nat a / rat_of_nat b * 10 ^ 20 + 1 / 2 =
        rat_of_int (2 * int a * 10 ^ 20 + int b) / rat_of_int (2 * int b)"
    using b by (simp add: field_simps)
  hence fl: "\<lfloor>rat_of_nat a / rat_of_nat b * 10 ^ 20 + 1 / 2\<rfloor> = m"
    unfolding m_def by (simp only: floor_divide_of_int_eq)
  have m0: "0 \<le> m" unfolding m_def by (simp add: pos_imp_zdiv_nonneg_iff b)
  have td: "to_dp (rat_of_nat a / rat_of_nat b) = rat_of_int m / rat_of_int (10 ^ 20)"
    using nn fl by (simp add: to_dp_def round_half_up_def DECIMAL_PLACES_def)
  have "\<not> rat_of_int m / rat_of_int (10 ^ 20) < 0"
    using m0 by (simp add: not_less)
  hence "round_down (to_dp (rat_of_nat a / rat_of_nat b)) = m div 10 ^ 20"
    unfolding td round_down_def by (simp only: floor_divide_of_int_eq if_False)
  also have "\<dots> = (2 * int a * 10 ^ 20 + int b) div (2 * int b * 10 ^ 20)"
    unfolding m_def by (rule zdiv_zmult2_eq [symmetric]) simp
  also have "\<dots> = int ((2 * a * 10 ^ 20 + b) div (2 * b * 10 ^ 20))"
    by (simp add: zdiv_int)
  also have "\<dots> = int (quot_dp a b)"
    using div_round_nat [OF b, of "10 ^ 20" a] by (simp add: quot_dp_def)
  finally show ?thesis .
qed

lemma multipliedBy_amount [simp]: "multipliedBy (amount a) (amount b) = amount (a * b)"
  by (simp add: amount_def)

lemma plus_amount [simp]: "plus_bn (amount a) (amount b) = amount (a + b)"
  by (simp add: amount_def)

lemma minus_amount [simp]: "b \<le> a \<Longrightarrow> minus_bn (amount a) (amount b) = amount (a - b)"
  by (simp add: amount_def minus_bn_def)

lemma isZero_amount [simp]: "isZero (amount a) \<longleftrightarrow> a = 0"
  by (simp add: amount_def)

lemma isGreaterThan_amount [simp]: "isGreaterThan (amount a) (amount b) \<longleftrightarrow> b < a"
  by (simp add: amount_def isGreaterThan_def)

lemma isLessThan_amount [simp]: "isLessThan (amount a) (amount b) \<longleftrightarrow> a < b"
  by (simp add: amount_def isLessThan_def)

lemma isLessThanOrEqualTo_amount [simp]:
  "isLessThanOrEqualTo (amount a) (amount b) \<longleftrightarrow> a \<le> b"
  by (auto simp add: amount_def isLessThanOrEqualTo_def)

lemma amount_eq_iff [simp]: "amount a = amount b \<longleftrightarrow> a = b"
  by (simp add: amount_def)

lemma integerValue_dividedBy_amount:
  "0 < b \<Longrightarrow> integerValue_ROUND_DOWN (dividedBy (amount a) (amount b)) = amount (quot_dp a b)"
  by (simp add: amount_def round_down_to_dp)

lemma U64_MAX_amount: "U64_MAX = amount 18446744073709551615"
  by (simp add: U64_MAX_def amount_def)

lemma FEE_SCALE_amount: "FEE_SCALE = amount 10000"
  by (simp add: FEE_SCALE_def amount_def)

lemma MAX_FEE_RATE_amount: "MAX_FEE_RATE = amount 2000"
  by (simp add: MAX_FEE_RATE_def amount_def)

lemma Fin_1_amount: "Fin 1 = amount 1"
  by (simp add: amount_def)

lemma quot_dp_exact: "0 < b \<Longrightarrow> b < 2 * 10 ^ 20 \<Longrightarrow> quot_dp a b = a div b"
proof -
  assume b: "0 < b" "b < 2 * 10 ^ 20"
  have "a mod b < b" using b by simp
  hence "1 \<le> b - a mod b" by simp
  hence "2 * 10 ^ 20 * 1 \<le> 2 * 10 ^ 20 * (b - a mod b)" by (rule mult_le_mono2)
  with b show ?thesis by (simp add: quot_dp_def)
qed

lemma quot_dp_ge: "a div b \<le> quot_dp a b"
  by (simp add: quot_dp_def)

lemma quot_dp_le:
  assumes b: "0 < b" and le: "a \<le> c * b"
  shows "quot_dp a b \<le> c"
proof (cases "a div b < c")
  case True
  then show ?thesis by (simp add: quot_dp_def)
next
  case False
  have "a div b \<le> c" using le b by (metis div_le_mono div_mult_self_is_m)
  with False have q: "a div b = c" by simp
  have "c * b + a mod b = a" using q by (metis div_mult_mod_eq)
  with le have "a mod b = 0" by simp
  then show ?thesis using q b by (simp add: quot_dp_def)
qed

lemma quot_dp_mult_le:
  assumes b: "0 < b"
  shows "2 * 10 ^ 20 * (quot_dp a b * b) \<le> 2 * 10 ^ 20 * a + b"
proof (cases "2 * 10 ^ 20 * (b - a mod b) \<le> b")
  case True
  have r: "a mod b < b" using b by simp
  have "quot_dp a b * b = a div b * b + b" using True by (simp add: quot_dp_def)
  also have "\<dots> = (a - a mod b) + b" by (simp add: minus_mod_eq_div_mult)
  also have "\<dots> = a + (b - a mod b)" using r by (simp add: le_diff_conv)
  finally have "2 * 10 ^ 20 * (quot_dp a b * b) = 2 * 10 ^ 20 * a + 2 * 10 ^ 20 * (b - a mod b)"
    by (simp add: algebra_simps)
  with True show ?thesis by linarith
next
  case False
  hence "quot_dp a b * b = a div b * b" by (simp add: quot_dp_def)
  also have "\<dots> \<le> a" by simp
  finally show ?thesis by simp
qed

lemma quot_dp_zero [simp]: "0 < b \<Longrightarrow> quot_dp 0 b = 0"
  by (simp add: quot_dp_def)

lemma quot_dp_cross:
  assumes "0 < xr" "0 < yr" "yd < quot_dp (xd * yr) xr"
  shows "quot_dp (yd * xr) yr \<le> xd"
proof -
  have "\<not> xd * yr \<le> yd * xr"
    using assms quot_dp_le [of xr "xd * yr" yd] by auto
  hence "yd * xr \<le> xd * yr" by simp
  thus ?thesis using assms by (intro quot_dp_le) simp_all
qed

lemma quot_dp_le_slack:
  fixes x b c d :: nat
  assumes b: "0 < b"
    and le: "2 * 10 ^ 20 * x \<le> 2 * 10 ^ 20 * (c * b) + d"
    and d: "d \<le> 10 ^ 20 * b"
  shows "quot_dp x b \<le> c"
proof (cases "x div b < c")
  case True
  then show ?thesis by (simp add: quot_dp_def)
next
  case False
  define q r where "q = x div b" and "r = x mod b"
  have x: "x = q * b + r" by (simp add: q_def r_def)
  have cq: "c \<le> q" using False by (simp add: q_def)
  have "10 ^ 20 * (2 * x) \<le> 10 ^ 20 * (2 * (c * b) + b)"
    using le d by (simp add: algebra_simps)
  hence le2: "2 * x \<le> 2 * (c * b) + b" by simp
  have qc: "q = c"
  proof (rule ccontr)
    assume "q \<noteq> c"
    with cq have "Suc c \<le> q" by simp
    hence "Suc c * b \<le> q * b" by (rule mult_le_mono1)
    hence "c * b + b \<le> x" using x by simp
    with le2 b show False by linarith
  qed
  have r2: "2 * r \<le> b" using le2 x qc by simp
  have "b < 10 ^ 20 * b" using b by simp
  also have "10 ^ 20 * b \<le> 10 ^ 20 * (2 * (b - r))"
    using r2 by (intro mult_le_mono2) linarith
  finally have "\<not> 2 * 10 ^ 20 * (b - x mod b) \<le> b" by (simp add: r_def)
  then show ?thesis using qc by (simp add: quot_dp_def q_def)
qed

section \<open>The functions of SwapMath on natural numbers\<close>

lemma mulDiv_amount:
  "mulDiv (amount x) (amount y) (amount z) =
     (if z = 0 then Inl DivisionByZero
      else if 18446744073709551615 < quot_dp (x * y) z then Inl Overflow
      else Inr (amount (quot_dp (x * y) z)))"
  by (simp add: mulDiv_def integerValue_dividedBy_amount U64_MAX_amount Let_def)

lemma calcOptimalCoinValues_amount:
  "calcOptimalCoinValues (amount xd) (amount yd) (amount xr) (amount yr) =
     (if xr = 0 \<and> yr = 0 then Inr (amount xd, amount yd)
      else if xr = 0 then Inl DivisionByZero
      else if 18446744073709551615 < quot_dp (xd * yr) xr then Inl Overflow
      else if quot_dp (xd * yr) xr \<le> yd then Inr (amount xd, amount (quot_dp (xd * yr) xr))
      else if yr = 0 then Inl DivisionByZero
      else if 18446744073709551615 < quot_dp (yd * xr) yr then Inl Overflow
      else if xd < quot_dp (yd * xr) yr then Inl OverLimit
      else Inr (amount (quot_dp (yd * xr) yr), amount yd))"
  by (simp add: calcOptimalCoinValues_def mulDiv_amount)

lemma minus_FEE_SCALE_amount:
  "feeRate \<le> 2000 \<Longrightarrow> minus_bn FEE_SCALE (amount feeRate) = amount (10000 - feeRate)"
  by (simp add: FEE_SCALE_amount)

lemma getAmountOut_amount:
  assumes "feeRate \<le> 2000"
  shows "getAmountOut (amount feeRate) (amount a) (amount ri) (amount ro) =
     (if a = 0 then Inl ZeroAmount
      else if ri = 0 \<or> ro = 0 then Inl EmptyReserves
      else if 18446744073709551615
                < quot_dp (a * (10000 - feeRate) * ro) (ri * 10000 + a * (10000 - feeRate))
      then Inl Overflow
      else Inr (amount (quot_dp (a * (10000 - feeRate) * ro)
                          (ri * 10000 + a * (10000 - feeRate)))))"
  using assms
  by (simp add: getAmountOut_def MAX_FEE_RATE_amount minus_FEE_SCALE_amount
      integerValue_dividedBy_amount U64_MAX_amount FEE_SCALE_amount Let_def)

section \<open>mulDiv\<close>

text \<open>
  For a non-zero divisor below \<open>2 * 10 ^ 20\<close> the rounding to 20 places never reaches the
  next integer, and \<^verbatim>\<open>mulDiv\<close> is the floor of the quotient behind its two checks.
\<close>

lemma mulDiv_floor:
  assumes "0 < z" and "z < 2 * 10 ^ 20"
  shows "mulDiv (amount x) (amount y) (amount z) =
           (if 18446744073709551615 < x * y div z then Inl Overflow
            else Inr (amount (x * y div z)))"
  using assms by (simp add: mulDiv_amount quot_dp_exact)

text \<open>
  Claim C8. Amounts are unsigned 64-bit integers. \<^verbatim>\<open>mulDiv(x, y, z)\<close> fails with
  DivisionByZero exactly when \<open>z = 0\<close>. For a non-zero divisor \<open>z\<close> of at most \<open>U64_MAX\<close>
  and all natural \<open>x\<close> and \<open>y\<close>, it fails with Overflow exactly when \<open>floor (x * y / z)\<close>
  exceeds \<open>U64_MAX\<close>, and returns \<open>floor (x * y / z)\<close> otherwise.
  \<^verbatim>\<open>mulDiv(U64_MAX, 2, 1)\<close> fails with Overflow, and \<^verbatim>\<open>mulDiv(x, y, 0)\<close> with DivisionByZero
  for all \<open>x\<close> and \<open>y\<close>.
\<close>

theorem C8_mulDiv_floor:
  "(mulDiv (amount x) (amount y) (amount z) = Inl DivisionByZero \<longleftrightarrow> z = 0)
   \<and> (0 < z \<and> z \<le> 18446744073709551615 \<longrightarrow>
       (mulDiv (amount x) (amount y) (amount z) = Inl Overflow
          \<longleftrightarrow> 18446744073709551615 < x * y div z)
       \<and> (x * y div z \<le> 18446744073709551615
          \<longleftrightarrow> mulDiv (amount x) (amount y) (amount z) = Inr (amount (x * y div z))))
   \<and> mulDiv (amount 18446744073709551615) (amount 2) (amount 1) = Inl Overflow
   \<and> mulDiv (amount x) (amount y) (amount 0) = Inl DivisionByZero"
proof -
  have "mulDiv (amount x) (amount y) (amount z) =
          (if 18446744073709551615 < x * y div z then Inl Overflow
           else Inr (amount (x * y div z)))"
    if "0 < z" and "z \<le> 18446744073709551615"
    using that by (intro mulDiv_floor) simp_all
  moreover have "mulDiv (amount 18446744073709551615) (amount 2) (amount 1) = Inl Overflow"
    by (simp add: mulDiv_floor)
  ultimately show ?thesis by (simp add: mulDiv_amount not_less)
qed

theorem C8_mulDiv_floor_witness:
  "(0::nat) < 2 \<and> (2::nat) \<le> 18446744073709551615
   \<and> mulDiv (amount 7) (amount 3) (amount 2) \<noteq> Inl DivisionByZero
   \<and> mulDiv (amount 7) (amount 3) (amount 2) \<noteq> Inl Overflow
   \<and> mulDiv (amount 7) (amount 3) (amount 2) = Inr (amount 10)
   \<and> mulDiv (amount 18446744073709551615) (amount 2) (amount 1) = Inl Overflow
   \<and> mulDiv (amount 7) (amount 3) (amount 0) = Inl DivisionByZero"
  using C8_mulDiv_floor [of 7 3 2] by simp

text \<open>
  Above the 64-bit range the rounding shows: at the divisor \<open>2 * 10 ^ 20\<close> the quotient
  \<open>0.999999999999999999995\<close> is rounded to 20 places, to \<open>1\<close>, before it is truncated.
\<close>

lemma mulDiv_above_u64:
  "mulDiv (amount 199999999999999999999) (amount 1) (amount 200000000000000000000)
     = Inr (amount 1)
   \<and> 199999999999999999999 * 1 div 200000000000000000000 = (0::nat)"
  by (simp add: mulDiv_amount quot_dp_def)

section \<open>calcOptimalCoinValues\<close>

text \<open>
  Claim C5. Whenever \<^verbatim>\<open>calcOptimalCoinValues(xDesired, yDesired, xReserve, yReserve)\<close>
  returns a pair, its components are amounts no larger than \<open>xDesired\<close> and \<open>yDesired\<close>;
  and with both reserves zero it returns \<open>(xDesired, yDesired)\<close>.
\<close>

theorem C5_calcOptimalCoinValues_bounded:
  "(calcOptimalCoinValues (amount xDesired) (amount yDesired) (amount xReserve) (amount yReserve)
      = Inr (xOptimal, yOptimal) \<longrightarrow>
    (\<exists>x y. xOptimal = amount x \<and> yOptimal = amount y \<and> x \<le> xDesired \<and> y \<le> yDesired))
   \<and> calcOptimalCoinValues (amount xDesired) (amount yDesired) (amount 0) (amount 0)
      = Inr (amount xDesired, amount yDesired)"
  by (auto simp add: calcOptimalCoinValues_amount split: if_splits)

theorem C5_calcOptimalCoinValues_bounded_witness:
  "calcOptimalCoinValues (amount 100) (amount 300) (amount 1000) (amount 2000)
     = Inr (amount 100, amount 200)
   \<and> (\<exists>x y. amount 100 = amount x \<and> amount 200 = amount y \<and> x \<le> (100::nat) \<and> y \<le> (300::nat))
   \<and> calcOptimalCoinValues (amount 100) (amount 300) (amount 0) (amount 0)
     = Inr (amount 100, amount 300)"
proof -
  have r: "calcOptimalCoinValues (amount 100) (amount 300) (amount 1000) (amount 2000)
             = Inr (amount 100, amount 200)"
    by (simp add: calcOptimalCoinValues_amount quot_dp_def)
  with C5_calcOptimalCoinValues_bounded [of 100 300 1000 2000 "amount 100" "amount 200"]
  show ?thesis by simp
qed

text \<open>
  Claim C6. With both reserves positive \<^verbatim>\<open>calcOptimalCoinValues\<close> never fails with OverLimit:
  when \<^verbatim>\<open>mulDiv(xDesired, yReserve, xReserve)\<close> exceeds \<open>yDesired\<close>, the value
  \<^verbatim>\<open>mulDiv(yDesired, xReserve, yReserve)\<close> is at most \<open>xDesired\<close>.
\<close>

theorem C6_calcOptimalCoinValues_no_OverLimit:
  assumes "0 < xReserve" and "0 < yReserve"
  shows "calcOptimalCoinValues (amount xDesired) (amount yDesired) (amount xReserve)
           (amount yReserve) \<noteq> Inl OverLimit
         \<and> (\<forall>yReturned xReturned.
              mulDiv (amount xDesired) (amount yReserve) (amount xReserve) = Inr yReturned
              \<and> isGreaterThan yReturned (amount yDesired)
              \<and> mulDiv (amount yDesired) (amount xReserve) (amount yReserve) = Inr xReturned
              \<longrightarrow> isLessThanOrEqualTo xReturned (amount xDesired))"
  using assms quot_dp_cross [of xReserve yReserve yDesired xDesired]
  by (auto simp add: calcOptimalCoinValues_amount mulDiv_amount split: if_splits)

theorem C6_calcOptimalCoinValues_no_OverLimit_witness:
  "(0::nat) < 1000 \<and> (0::nat) < 2000
   \<and> calcOptimalCoinValues (amount 300) (amount 100) (amount 1000) (amount 2000)
       \<noteq> Inl OverLimit
   \<and> mulDiv (amount 300) (amount 2000) (amount 1000) = Inr (amount 600)
   \<and> isGreaterThan (amount 600) (amount 100)
   \<and> mulDiv (amount 100) (amount 1000) (amount 2000) = Inr (amount 50)
   \<and> isLessThanOrEqualTo (amount 50) (amount 300)"
proof -
  have a: "mulDiv (amount 300) (amount 2000) (amount 1000) = Inr (amount 600)"
    and b: "mulDiv (amount 100) (amount 1000) (amount 2000) = Inr (amount 50)"
    by (simp_all add: mulDiv_amount quot_dp_def)
  from C6_calcOptimalCoinValues_no_OverLimit [of 1000 2000 300 100] a b
  show ?thesis by simp
qed

text \<open>
  Claim C10. With exactly one reserve zero \<^verbatim>\<open>calcOptimalCoinValues\<close> is not symmetric:
  with \<open>xReserve = 0\<close> and \<open>yReserve > 0\<close> it fails with DivisionByZero, which \<^verbatim>\<open>mulDiv\<close>
  raises; with \<open>xReserve > 0\<close> and \<open>yReserve = 0\<close> it returns \<open>(xDesired, 0)\<close>.
\<close>

theorem C10_calcOptimalCoinValues_one_empty:
  "(0 < yReserve \<longrightarrow>
      mulDiv (amount xDesired) (amount yReserve) (amount 0) = Inl DivisionByZero
      \<and> calcOptimalCoinValues (amount xDesired) (amount yDesired) (amount 0) (amount yReserve)
          = Inl DivisionByZero)
   \<and> (0 < xReserve \<longrightarrow>
      calcOptimalCoinValues (amount xDesired) (amount yDesired) (amount xReserve) (amount 0)
        = Inr (amount xDesired, amount 0))"
  by (simp add: calcOptimalCoinValues_def mulDiv_amount)

theorem C10_calcOptimalCoinValues_one_empty_witness:
  "(0::nat) < 2000 \<and> (0::nat) < 1000
   \<and> mulDiv (amount 100) (amount 2000) (amount 0) = Inl DivisionByZero
   \<and> calcOptimalCoinValues (amount 100) (amount 300) (amount 0) (amount 2000)
       = Inl DivisionByZero
   \<and> calcOptimalCoinValues (amount 100) (amount 300) (amount 1000) (amount 0)
       = Inr (amount 100, amount 0)"
  using C10_calcOptimalCoinValues_one_empty [of 2000 100 300 1000] by simp

section \<open>getAmountOut\<close>

text \<open>
  Claim C9. \<^verbatim>\<open>getAmountOut\<close> fails with InvalidFeeRate for every fee rate above 2000,
  whatever the other arguments are, and not at the fee rate 2000; with a fee rate of at
  most 2000 it fails with ZeroAmount when \<open>amountIn = 0\<close>, and with a positive \<open>amountIn\<close>
  it fails with EmptyReserves when one of the reserves is zero.
\<close>

theorem C9_getAmountOut_guards:
  "(2000 < feeRate \<longrightarrow>
      getAmountOut (amount feeRate) amountIn reserveIn reserveOut = Inl InvalidFeeRate)
   \<and> getAmountOut (amount 2000) amountIn reserveIn reserveOut \<noteq> Inl InvalidFeeRate
   \<and> (feeRate \<le> 2000 \<longrightarrow>
      getAmountOut (amount feeRate) (amount 0) reserveIn reserveOut = Inl ZeroAmount)
   \<and> (feeRate \<le> 2000 \<and> 0 < a \<and> (x = 0 \<or> y = 0) \<longrightarrow>
      getAmountOut (amount feeRate) (amount a) (amount x) (amount y) = Inl EmptyReserves)"
  by (auto simp add: getAmountOut_def MAX_FEE_RATE_amount Let_def)

theorem C9_getAmountOut_guards_witness:
  "(2000::nat) < 2001
   \<and> getAmountOut (amount 2001) (amount 1000) (amount 1000000) (amount 2000000)
       = Inl InvalidFeeRate
   \<and> getAmountOut (amount 2000) (amount 1000) (amount 1000000) (amount 2000000)
       \<noteq> Inl InvalidFeeRate
   \<and> getAmountOut (amount 30) (amount 0) (amount 1000000) (amount 2000000) = Inl ZeroAmount
   \<and> getAmountOut (amount 30) (amount 1000) (amount 0) (amount 2000000) = Inl EmptyReserves"
  using C9_getAmountOut_guards [of 2001 "amount 1000" "amount 1000000" "amount 2000000" 1 1 1]
    C9_getAmountOut_guards [of 30 "amount 1000" "amount 1000000" "amount 2000000" 1000 0 2000000]
  by simp

text \<open>
  When the divisor \<open>reserveIn * 10000 + amountIn * (10000 - feeRate)\<close> is below
  \<open>2 * 10 ^ 20\<close>, \<^verbatim>\<open>getAmountOut\<close> returns the floor of the quotient, as in the example of
  the specification.
\<close>

lemma getAmountOut_floor:
  assumes "feeRate \<le> 2000" "0 < a" "0 < ri" "0 < ro"
    and "ri * 10000 + a * (10000 - feeRate) < 2 * 10 ^ 20"
  shows "getAmountOut (amount feeRate) (amount a) (amount ri) (amount ro) =
     (if 18446744073709551615
           < a * (10000 - feeRate) * ro div (ri * 10000 + a * (10000 - feeRate))
      then Inl Overflow
      else Inr (amount (a * (10000 - feeRate) * ro div (ri * 10000 + a * (10000 - feeRate)))))"
  using assms by (simp add: getAmountOut_amount quot_dp_exact)

lemma getAmountOut_golden:
  "getAmountOut (amount 30) (amount 1000) (amount 1000000) (amount 2000000) = Inr (amount 1992)
   \<and> 9970000 * 2000000 div 10009970000 = (1992::nat)"
  by (simp add: getAmountOut_amount quot_dp_def)

text \<open>
  Claim C3 says that \<^verbatim>\<open>getAmountOut\<close> returns exactly
  \<open>floor (amountIn * (10000 - feeRate) * reserveOut /
    (reserveIn * 10000 + amountIn * (10000 - feeRate)))\<close>.
  The divisor reaches \<open>2 * 10 ^ 20\<close> for amounts within the 64-bit range, and there the
  rounding of the quotient to 20 places makes the code return one more than the floor:
  for the fee rate 30, \<open>amountIn = 5955543267441242937\<close>,
  \<open>reserveIn = 1985758236351349410\<close> and \<open>reserveOut = 5242755440407774614\<close> the floor is
  \<open>3928824681521805756\<close> and \<^verbatim>\<open>getAmountOut\<close> returns \<open>3928824681521805757\<close>.
\<close>

theorem C3_getAmountOut_rounds_up:
  "getAmountOut (amount 30) (amount 5955543267441242937) (amount 1985758236351349410)
     (amount 5242755440407774614) = Inr (amount 3928824681521805757)
   \<and> 5955543267441242937 * (10000 - 30) * 5242755440407774614
       div (1985758236351349410 * 10000 + 5955543267441242937 * (10000 - 30))
     = (3928824681521805756::nat)"
  by (simp add: getAmountOut_amount quot_dp_def)

text \<open>
  What the rounded quotient of \<^verbatim>\<open>getAmountOut\<close> satisfies when the divisor is below
  \<open>2 * 10 ^ 24\<close>: it is less than \<open>reserveOut\<close>, and
  \<open>reserveIn * amountOut \<le> amountIn * (reserveOut - amountOut)\<close>.
\<close>

lemma getAmountOut_invariant:
  fixes a ri ro n fm :: nat
  assumes fm: "fm \<le> 10000" and ri: "0 < ri" and ro: "0 < ro"
    and D: "ri * 10000 + a * fm < 2 * 10 ^ 20 * 10000"
    and n: "n = quot_dp (a * fm * ro) (ri * 10000 + a * fm)"
  shows "n < ro \<and> ri * n \<le> a * (ro - n)"
proof -
  define D where "D = ri * 10000 + a * fm"
  have Dpos: "0 < D" using ri by (simp add: D_def)
  have "2 * 10 ^ 20 * (n * D) \<le> 2 * 10 ^ 20 * (a * fm * ro) + D"
    unfolding n D_def [symmetric] using Dpos by (rule quot_dp_mult_le)
  also have "\<dots> < 2 * 10 ^ 20 * (a * fm * ro) + 2 * 10 ^ 20 * 10000"
    using D by (simp add: D_def)
  finally have "2 * 10 ^ 20 * (n * D) < 2 * 10 ^ 20 * (a * fm * ro + 10000)"
    by (simp add: distrib_left)
  hence lt: "n * D < a * fm * ro + 10000" by simp
  have n_ro: "n < ro"
  proof (rule ccontr)
    assume "\<not> n < ro"
    hence "ro * D \<le> n * D" by simp
    moreover have "ro * D = (ro * ri) * 10000 + a * fm * ro"
      by (simp add: D_def algebra_simps)
    ultimately have "(ro * ri) * 10000 < 1 * 10000" using lt by linarith
    hence "ro * ri < 1" by simp
    with ri ro show False by simp
  qed
  define j where "j = ro - n"
  have ro_eq: "ro = n + j" using n_ro by (simp add: j_def)
  have e1: "n * D = (n * ri) * 10000 + a * fm * n"
    by (simp add: D_def algebra_simps)
  have e2: "a * fm * ro = a * fm * n + a * fm * j"
    by (simp add: ro_eq algebra_simps)
  have "a * fm * j \<le> a * 10000 * j" using fm by (intro mult_le_mono) simp_all
  hence e3: "a * fm * j \<le> (a * j) * 10000" by (simp add: mult.commute mult.left_commute)
  from lt e1 e2 e3 have "(n * ri) * 10000 < (a * j) * 10000 + 10000" by linarith
  hence "(n * ri) * 10000 < (a * j + 1) * 10000" by (simp add: distrib_right)
  hence "n * ri < a * j + 1" by simp
  hence "ri * n \<le> a * (ro - n)" by (simp add: j_def mult.commute)
  with n_ro show ?thesis by simp
qed

lemma u64_divisor_bound:
  fixes a ri fm :: nat
  assumes "a \<le> 18446744073709551615" "ri \<le> 18446744073709551615" "fm \<le> 10000"
  shows "ri * 10000 + a * fm \<le> 368934881474191032300000"
proof -
  have "ri * 10000 \<le> 18446744073709551615 * 10000" using assms by (intro mult_le_mono) simp_all
  moreover have "a * fm \<le> 18446744073709551615 * 10000" using assms by (intro mult_le_mono)
  ultimately show ?thesis by simp
qed

text \<open>
  Claim C1. Amounts are unsigned 64-bit integers. For a fee rate of at most 2000 and
  \<open>amountIn\<close> and \<open>reserveIn\<close> of at most \<open>U64_MAX\<close> (and any \<open>reserveOut\<close>), whenever \<^verbatim>\<open>getAmountOut\<close> returns \<open>amountOut\<close> (so
  \<open>amountIn\<close> and both reserves are positive), \<open>amountOut\<close> is less than \<open>reserveOut\<close>, the
  constant product does not decrease,
  \<open>reserveIn * reserveOut \<le> (reserveIn + amountIn) * (reserveOut - amountOut)\<close>, and
  \<^verbatim>\<open>assertLpValueIsIncreased(reserveIn, reserveOut, reserveIn + amountIn,
  reserveOut - amountOut)\<close> does not fail.
\<close>

theorem C1_swap_invariant:
  assumes fee: "feeRate \<le> 2000"
    and a: "amountIn \<le> 18446744073709551615"
    and ri: "reserveIn \<le> 18446744073709551615"
    and out: "getAmountOut (amount feeRate) (amount amountIn) (amount reserveIn)
                (amount reserveOut) = Inr out"
  shows "\<exists>amountOut. out = amount amountOut \<and> amountOut < reserveOut
           \<and> reserveIn * reserveOut \<le> (reserveIn + amountIn) * (reserveOut - amountOut)
           \<and> assertLpValueIsIncreased (amount reserveIn) (amount reserveOut)
                (plus_bn (amount reserveIn) (amount amountIn))
                (minus_bn (amount reserveOut) out) = Inr ()"
proof -
  define fm where "fm = 10000 - feeRate"
  define n where "n = quot_dp (amountIn * fm * reserveOut) (reserveIn * 10000 + amountIn * fm)"
  have pos: "0 < reserveIn" "0 < reserveOut" and o: "out = amount n"
    using out fee by (auto simp add: getAmountOut_amount fm_def n_def split: if_splits)
  have fm: "fm \<le> 10000" by (simp add: fm_def)
  have "reserveIn * 10000 + amountIn * fm \<le> 368934881474191032300000"
    using a ri fm by (rule u64_divisor_bound)
  hence D: "reserveIn * 10000 + amountIn * fm < 2 * 10 ^ 20 * 10000" by simp
  have inv: "n < reserveOut \<and> reserveIn * n \<le> amountIn * (reserveOut - n)"
    using fm pos D n_def by (rule getAmountOut_invariant)
  define j where "j = reserveOut - n"
  have ro: "reserveOut = n + j" using inv by (simp add: j_def)
  have "reserveIn * reserveOut = reserveIn * n + reserveIn * j"
    by (simp add: ro distrib_left)
  also have "\<dots> \<le> amountIn * j + reserveIn * j" using inv by (simp add: j_def)
  also have "\<dots> = (reserveIn + amountIn) * j" by (simp add: distrib_right)
  finally have k: "reserveIn * reserveOut \<le> (reserveIn + amountIn) * (reserveOut - n)"
    by (simp add: j_def)
  have "assertLpValueIsIncreased (amount reserveIn) (amount reserveOut)
          (plus_bn (amount reserveIn) (amount amountIn))
          (minus_bn (amount reserveOut) out) = Inr ()"
    using inv k by (simp add: assertLpValueIsIncreased_def o not_less)
  with inv k o show ?thesis by blast
qed

theorem C1_swap_invariant_witness:
  "(30::nat) \<le> 2000 \<and> (1000::nat) \<le> 18446744073709551615
   \<and> (1000000::nat) \<le> 18446744073709551615
   \<and> getAmountOut (amount 30) (amount 1000) (amount 1000000) (amount 2000000)
       = Inr (amount 1992)
   \<and> (1000000::nat) * 2000000 \<le> (1000000 + 1000) * (2000000 - 1992)
   \<and> assertLpValueIsIncreased (amount 1000000) (amount 2000000)
        (plus_bn (amount 1000000) (amount 1000))
        (minus_bn (amount 2000000) (amount 1992)) = Inr ()"
proof -
  have r: "getAmountOut (amount 30) (amount 1000) (amount 1000000) (amount 2000000)
             = Inr (amount 1992)"
    by (simp add: getAmountOut_amount quot_dp_def)
  from C1_swap_invariant [OF _ _ _ r] show ?thesis using r by simp
qed

text \<open>
  Above the 64-bit range the rounding of the quotient shows: with the fee rate 1, both reserves 1
  and \<open>amountIn = 200030000000000000001\<close> the quotient is \<open>1 - 10000 / d\<close> for the divisor
  \<open>d = 2000099970000000000019999\<close>, less than \<open>1 / (2 * 10 ^ 20)\<close> away from 1; it is
  rounded to 1, \<^verbatim>\<open>getAmountOut\<close> returns the whole reserve, and the product falls from 1
  to 0.
\<close>

lemma getAmountOut_above_u64:
  "getAmountOut (amount 1) (amount 200030000000000000001) (amount 1) (amount 1)
     = Inr (amount 1)
   \<and> \<not> (1::nat) * 1 \<le> (1 + 200030000000000000001) * (1 - 1)
   \<and> assertLpValueIsIncreased (amount 1) (amount 1)
        (plus_bn (amount 1) (amount 200030000000000000001))
        (minus_bn (amount 1) (amount 1)) = Inl InvariantViolation"
  by (simp add: getAmountOut_amount quot_dp_def assertLpValueIsIncreased_def)

section \<open>getAmountIn\<close>

lemma getAmountIn_amount:
  assumes "feeRate \<le> 2000" "0 < out" "0 < ri" "out < ro"
  shows "getAmountIn (amount feeRate) (amount out) (amount ri) (amount ro) =
     (if 18446744073709551615
           < quot_dp (ri * out * 10000) ((ro - out) * (10000 - feeRate)) + 1
      then Inl Overflow
      else Inr (amount (quot_dp (ri * out * 10000) ((ro - out) * (10000 - feeRate)) + 1)))"
  using assms
  by (simp add: getAmountIn_def MAX_FEE_RATE_amount minus_FEE_SCALE_amount
      integerValue_dividedBy_amount U64_MAX_amount FEE_SCALE_amount Fin_1_amount Let_def)

text \<open>
  When \<open>amountOut = reserveOut\<close> the denominator is zero, the quotient is
  \<^verbatim>\<open>Infinity\<close>, and the comparison with \<open>U64_MAX\<close> throws "U64 overflow". When
  \<open>amountOut\<close> exceeds \<open>reserveOut\<close> the denominator is negative and nothing is thrown:
  the function returns a value of at most 1.
\<close>

lemma getAmountIn_whole_reserve:
  assumes "feeRate \<le> 2000" "0 < out" "0 < ri"
  shows "getAmountIn (amount feeRate) (amount out) (amount ri) (amount out) = Inl Overflow"
  using assms
  by (simp add: getAmountIn_def MAX_FEE_RATE_amount minus_FEE_SCALE_amount FEE_SCALE_amount
      Let_def)
    (simp add: amount_def U64_MAX_def isGreaterThan_def)

lemma round_half_up_of_int: "round_half_up (rat_of_int k) = k"
proof -
  have "\<lfloor>rat_of_int k + 1 / 2\<rfloor> = k" by (rule floor_unique) simp_all
  moreover have "\<lfloor>- rat_of_int k + 1 / 2\<rfloor> = - k"
    using floor_unique [of "- k" "- rat_of_int k + 1 / 2"] by simp
  ultimately show ?thesis by (simp add: round_half_up_def)
qed

lemma to_dp_of_int: "to_dp (rat_of_int k) = rat_of_int k"
proof -
  have "round_half_up (rat_of_int k * 10 ^ 20) = k * 10 ^ 20"
    using round_half_up_of_int [of "k * 10 ^ 20"] by simp
  thus ?thesis by (simp add: to_dp_def DECIMAL_PLACES_def)
qed

lemma round_down_to_dp_nonpos:
  assumes "q < 0"
  shows "round_down (to_dp q) \<le> 0"
proof -
  have "0 \<le> - (q * 10 ^ 20) + 1 / 2" using assms by (simp add: mult_neg_pos)
  hence "0 \<le> \<lfloor>- (q * 10 ^ 20) + 1 / 2\<rfloor>" by simp
  moreover have "q * 10 ^ 20 < 0" using assms by (simp add: mult_neg_pos)
  ultimately have "round_half_up (q * 10 ^ 20) \<le> 0"
    by (simp add: round_half_up_def)
  hence le: "to_dp q \<le> 0"
    by (simp add: to_dp_def DECIMAL_PLACES_def divide_le_0_iff)
  show ?thesis
  proof (cases "to_dp q < 0")
    case True
    then show ?thesis by (simp add: round_down_def le)
  next
    case False
    with le have "to_dp q = 0" by simp
    then show ?thesis by (simp add: round_down_def)
  qed
qed

lemma getAmountIn_beyond_reserve:
  assumes "feeRate \<le> 2000" "0 < ri" "0 < ro" "ro < out"
  shows "\<exists>v. getAmountIn (amount feeRate) (amount out) (amount ri) (amount ro) = Inr (Fin v)
              \<and> v \<le> 1"
proof -
  define den :: rat where "den = (of_nat ro - of_nat out) * of_nat (10000 - feeRate)"
  define num :: rat where "num = of_nat (ri * out * 10000)"
  have den: "den < 0" using assms by (simp add: den_def mult_neg_pos)
  have num: "0 < num" using assms by (simp add: num_def)
  have q: "num / den < 0" using den num by (simp add: divide_pos_neg)
  define v where "v = rat_of_int (round_down (to_dp (num / den))) + 1"
  have v: "v \<le> 1" using round_down_to_dp_nonpos [OF q] by (simp add: v_def)
  have "getAmountIn (amount feeRate) (amount out) (amount ri) (amount ro) = Inr (Fin v)"
    using assms den v
    by (simp add: getAmountIn_def MAX_FEE_RATE_amount minus_FEE_SCALE_amount FEE_SCALE_amount
        Let_def)
      (simp add: amount_def minus_bn_def U64_MAX_def isGreaterThan_def v_def den_def num_def)
  with v show ?thesis by blast
qed

text \<open>
  Claim C4, as the code has it. For a fee rate of at most 2000, \<open>amountOut > 0\<close>,
  \<open>reserveIn > 0\<close> and \<open>reserveOut = amountOut\<close>, \<^verbatim>\<open>getAmountIn\<close> fails, and the failure is
  Overflow; no input makes \<^verbatim>\<open>getAmountIn\<close> fail with InsufficientLiquidity.
\<close>

theorem C4_getAmountIn_whole_reserve:
  "(feeRate \<le> 2000 \<and> 0 < amountOut \<and> 0 < reserveIn \<longrightarrow>
      getAmountIn (amount feeRate) (amount amountOut) (amount reserveIn) (amount amountOut)
        = Inl Overflow)
   \<and> getAmountIn fee out rIn rOut \<noteq> Inl InsufficientLiquidity"
  by (simp add: getAmountIn_whole_reserve) (simp add: getAmountIn_def Let_def)

theorem C4_getAmountIn_whole_reserve_witness:
  "(30::nat) \<le> 2000 \<and> (0::nat) < 2000000 \<and> (0::nat) < 1000000
   \<and> getAmountIn (amount 30) (amount 2000000) (amount 1000000) (amount 2000000)
       = Inl Overflow"
  using C4_getAmountIn_whole_reserve [of 30 2000000 1000000] by simp

text \<open>
  The claim as it is written fails in both of its cases: with \<open>reserveOut = amountOut = 2\<close>
  the failure is Overflow, and with \<open>reserveOut = 2 < amountOut = 3\<close> the function does
  not fail and returns \<open>- 5\<close>.
\<close>

theorem C4_getAmountIn_counterexample:
  "getAmountIn (amount 0) (amount 2) (amount 2) (amount 2) = Inl Overflow
   \<and> getAmountIn (amount 0) (amount 3) (amount 2) (amount 2) = Inr (Fin (- 5))"
proof -
  have "to_dp (- 6) = - 6"
    using to_dp_of_int [of "- 6"] by simp
  hence "getAmountIn (amount 0) (amount 3) (amount 2) (amount 2) = Inr (Fin (- 5))"
    by (simp add: getAmountIn_def MAX_FEE_RATE_amount minus_FEE_SCALE_amount FEE_SCALE_amount
        Let_def)
      (simp add: amount_def minus_bn_def U64_MAX_def isGreaterThan_def round_down_def)
  thus ?thesis by (simp add: getAmountIn_whole_reserve)
qed

text \<open>
  The input recovered from an output. The rounded quotient of \<^verbatim>\<open>getAmountIn\<close>, before
  the 1 is added, is at most \<open>amountIn\<close> when \<open>amountIn\<close> and \<open>reserveIn\<close> are at most
  \<open>U64_MAX\<close>.
\<close>

lemma getAmountOut_round_trip:
  fixes a ri ro n fm :: nat
  assumes fm: "8000 \<le> fm" "fm \<le> 10000" and ri: "0 < ri" and ro: "0 < ro"
    and D: "ri * 10000 + a * fm \<le> 368934881474191032300000"
    and n: "n = quot_dp (a * fm * ro) (ri * 10000 + a * fm)"
  shows "n < ro \<and> quot_dp (ri * n * 10000) ((ro - n) * fm) \<le> a"
proof -
  define D where "D = ri * 10000 + a * fm"
  define K :: nat where "K = 2 * 10 ^ 20"
  have Dpos: "0 < D" using ri by (simp add: D_def)
  have "ri * 10000 + a * fm < 2 * 10 ^ 20 * 10000" using D by simp
  with fm ri ro have "n < ro \<and> ri * n \<le> a * (ro - n)"
    using n by (intro getAmountOut_invariant) simp_all
  hence n_ro: "n < ro" ..
  define j where "j = ro - n"
  have ro_eq: "ro = n + j" and j: "1 \<le> j" using n_ro by (simp_all add: j_def)
  have q: "K * (n * D) \<le> K * (a * fm * ro) + D"
    unfolding n D_def [symmetric] K_def using Dpos by (rule quot_dp_mult_le)
  have e1: "K * (n * D) = K * (ri * n * 10000) + K * (a * fm * n)"
    by (simp add: D_def algebra_simps)
  have e2: "K * (a * fm * ro) = K * (a * fm * n) + K * (a * (j * fm))"
    by (simp add: ro_eq algebra_simps)
  from q e1 e2 have slack: "K * (ri * n * 10000) \<le> K * (a * (j * fm)) + D" by linarith
  have "1 * 8000 \<le> j * fm" using j fm by (intro mult_le_mono) simp_all
  hence "8000 \<le> j * fm" by simp
  hence "10 ^ 20 * 8000 \<le> 10 ^ 20 * (j * fm)" by (rule mult_le_mono2)
  moreover have "D \<le> 10 ^ 20 * 8000" using D by (simp add: D_def)
  ultimately have small: "D \<le> 10 ^ 20 * (j * fm)" by (rule order_trans [rotated])
  have "0 < j * fm" using j fm by simp
  hence "quot_dp (ri * n * 10000) (j * fm) \<le> a"
    using slack small unfolding K_def by (rule quot_dp_le_slack)
  with n_ro show ?thesis by (simp add: j_def)
qed

text \<open>
  Claim C2, as the code has it. For a fee rate of at most 2000 and \<open>amountIn\<close> and
  \<open>reserveIn\<close> of at most \<open>U64_MAX\<close>, if \<^verbatim>\<open>getAmountOut\<close> returns \<open>amountOut > 0\<close> then
  \<^verbatim>\<open>getAmountIn(feeRate, amountOut, reserveIn, reserveOut)\<close> returns a value of at most
  \<open>amountIn + 1\<close>, or fails with Overflow, which it can only when \<open>amountIn = U64_MAX\<close>.
\<close>

theorem C2_round_trip:
  assumes fee: "feeRate \<le> 2000"
    and a: "amountIn \<le> 18446744073709551615"
    and ri: "reserveIn \<le> 18446744073709551615"
    and out: "getAmountOut (amount feeRate) (amount amountIn) (amount reserveIn)
                (amount reserveOut) = Inr (amount amountOut)"
    and pos: "0 < amountOut"
  shows "(\<exists>m. getAmountIn (amount feeRate) (amount amountOut) (amount reserveIn)
                (amount reserveOut) = Inr (amount m) \<and> m \<le> amountIn + 1)
         \<or> (amountIn = 18446744073709551615
            \<and> getAmountIn (amount feeRate) (amount amountOut) (amount reserveIn)
                (amount reserveOut) = Inl Overflow)"
proof -
  define fm where "fm = 10000 - feeRate"
  have res: "0 < reserveIn" "0 < reserveOut"
    and n: "amountOut = quot_dp (amountIn * fm * reserveOut) (reserveIn * 10000 + amountIn * fm)"
    using out fee by (auto simp add: getAmountOut_amount fm_def split: if_splits)
  have fm: "8000 \<le> fm" "fm \<le> 10000" using fee by (simp_all add: fm_def)
  have D: "reserveIn * 10000 + amountIn * fm \<le> 368934881474191032300000"
    using a ri fm(2) by (rule u64_divisor_bound)
  have rt: "amountOut < reserveOut
            \<and> quot_dp (reserveIn * amountOut * 10000) ((reserveOut - amountOut) * fm) \<le> amountIn"
    using fm res D n by (rule getAmountOut_round_trip)
  hence lt: "amountOut < reserveOut" ..
  show ?thesis
    using rt a getAmountIn_amount [OF fee pos res(1) lt]
    by (auto simp add: fm_def)
qed

theorem C2_round_trip_witness:
  "(30::nat) \<le> 2000 \<and> (1000::nat) \<le> 18446744073709551615
   \<and> (1000000::nat) \<le> 18446744073709551615
   \<and> getAmountOut (amount 30) (amount 1000) (amount 1000000) (amount 2000000)
       = Inr (amount 1992)
   \<and> (0::nat) < 1992
   \<and> getAmountIn (amount 30) (amount 1992) (amount 1000000) (amount 2000000)
       = Inr (amount 1000)
   \<and> (1000::nat) \<le> 1000 + 1"
proof -
  have r: "getAmountOut (amount 30) (amount 1000) (amount 1000000) (amount 2000000)
             = Inr (amount 1992)"
    by (simp add: getAmountOut_amount quot_dp_def)
  have "getAmountIn (amount 30) (amount 1992) (amount 1000000) (amount 2000000)
          = Inr (amount 1000)"
    using C2_round_trip [OF _ _ _ r] by (simp add: getAmountIn_amount quot_dp_def)
  with r show ?thesis by simp
qed

text \<open>
  The bound \<open>amountIn\<close> of the claim as it is written fails when the division of
  \<^verbatim>\<open>getAmountIn\<close> is exact, since 1 is added to the quotient in any case: with the fee
  rate 0, \<open>amountIn = 2\<close> and both reserves 2, \<^verbatim>\<open>getAmountOut\<close> returns 1 and
  \<^verbatim>\<open>getAmountIn\<close> returns 3.
\<close>

theorem C2_round_trip_counterexample:
  "getAmountOut (amount 0) (amount 2) (amount 2) (amount 2) = Inr (amount 1)
   \<and> getAmountIn (amount 0) (amount 1) (amount 2) (amount 2) = Inr (amount 3)
   \<and> \<not> (3::nat) \<le> 2"
  by (simp add: getAmountOut_amount getAmountIn_amount quot_dp_def)

section \<open>getExpectedLiquidityAmount\<close>

text \<open>
  \<open>floor_sqrt\<close> is the integer square root, and the square root of a natural number,
  rounded to 20 places and truncated, is its integer square root as long as that is below
  \<open>10 ^ 20\<close>, and never less.
\<close>

lemma floor_sqrt_bounds:
  "floor_sqrt n * floor_sqrt n \<le> n \<and> n < (floor_sqrt n + 1) * (floor_sqrt n + 1)"
proof (induction n rule: floor_sqrt.induct)
  case (1 n)
  show ?case
  proof (cases "n = 0")
    case True
    then show ?thesis by (simp add: floor_sqrt.simps)
  next
    case False
    define s where "s = floor_sqrt (n div 4)"
    have IH: "s * s \<le> n div 4" "n div 4 < (s + 1) * (s + 1)"
      using "1.IH" [OF False] by (simp_all add: s_def)
    have lo: "(2 * s) * (2 * s) \<le> n"
    proof -
      have "(2 * s) * (2 * s) = 4 * (s * s)" by simp
      also have "\<dots> \<le> 4 * (n div 4)" using IH(1) by simp
      also have "\<dots> \<le> n" by simp
      finally show ?thesis .
    qed
    have hi: "n < (2 * s + 2) * (2 * s + 2)"
    proof -
      have "n div 4 + 1 \<le> (s + 1) * (s + 1)" using IH(2) by simp
      hence "4 * (n div 4 + 1) \<le> 4 * ((s + 1) * (s + 1))" by (rule mult_le_mono2)
      moreover have "n < 4 * (n div 4 + 1)" by simp
      moreover have "4 * ((s + 1) * (s + 1)) = (2 * s + 2) * (2 * s + 2)"
        by (simp add: algebra_simps)
      ultimately show ?thesis by linarith
    qed
    have fs: "floor_sqrt n = (if (2 * s + 1) * (2 * s + 1) \<le> n then 2 * s + 1 else 2 * s)"
      using False by (subst floor_sqrt.simps) (simp add: s_def Let_def)
    show ?thesis
    proof (cases "(2 * s + 1) * (2 * s + 1) \<le> n")
      case True
      with fs hi show ?thesis by (simp add: numeral_2_eq_2) 
    next
      case False
      with fs lo show ?thesis by simp
    qed
  qed
qed

lemma floor_sqrt_ge:
  assumes "a * a \<le> n"
  shows "a \<le> floor_sqrt n"
proof (rule ccontr)
  assume "\<not> a \<le> floor_sqrt n"
  hence h: "floor_sqrt n + 1 \<le> a" by simp
  from h h have "(floor_sqrt n + 1) * (floor_sqrt n + 1) \<le> a * a" by (rule mult_le_mono)
  with assms floor_sqrt_bounds [of n] show False by linarith
qed

lemma floor_sqrt_less:
  assumes "n < a * a"
  shows "floor_sqrt n < a"
proof (rule ccontr)
  assume "\<not> floor_sqrt n < a"
  hence h: "a \<le> floor_sqrt n" by simp
  from h h have "a * a \<le> floor_sqrt n * floor_sqrt n" by (rule mult_le_mono)
  with assms floor_sqrt_bounds [of n] show False by linarith
qed

lemma floor_sqrt_real: "int (floor_sqrt n) = \<lfloor>sqrt (real n)\<rfloor>"
proof -
  define r where "r = floor_sqrt n"
  have b: "r * r \<le> n" "n < (r + 1) * (r + 1)"
    using floor_sqrt_bounds [of n] by (simp_all add: r_def)
  have "(real r)\<^sup>2 \<le> real n"
    using b(1) by (metis of_nat_le_iff of_nat_mult power2_eq_square)
  hence lo: "real r \<le> sqrt (real n)" by (rule real_le_rsqrt)
  have "real n < (real r + 1)\<^sup>2"
    using b(2) by (metis of_nat_less_iff of_nat_mult of_nat_add of_nat_1 power2_eq_square)
  hence hi: "sqrt (real n) < real r + 1" by (intro real_less_lsqrt) simp_all
  have "\<lfloor>sqrt (real n)\<rfloor> = int r"
    using lo hi by (intro floor_unique) simp_all
  thus ?thesis by (simp add: r_def)
qed

lemma quarter_le_iff:
  fixes x y :: int
  shows "rat_of_int x + 1 / 4 \<le> rat_of_int y \<longleftrightarrow> x < y"
proof
  assume "rat_of_int x + 1 / 4 \<le> rat_of_int y"
  hence "rat_of_int x < rat_of_int y" by linarith
  thus "x < y" by simp
next
  assume "x < y"
  hence "x + 1 \<le> y" by simp
  hence "rat_of_int (x + 1) \<le> rat_of_int y" by (simp only: of_int_le_iff)
  thus "rat_of_int x + 1 / 4 \<le> rat_of_int y" by simp
qed

lemma round_down_sqrt_dp:
  fixes n :: nat
  defines "R \<equiv> floor_sqrt (n * 10 ^ 40)"
  shows "round_down (sqrt_dp (rat_of_nat n)) =
         int ((if R * R + R < n * 10 ^ 40 then R + 1 else R) div 10 ^ 20)"
proof -
  define V :: nat where "V = (if R * R + R < n * 10 ^ 40 then R + 1 else R)"
  have s: "rat_of_nat n * 10 ^ 40 = rat_of_int (int (n * 10 ^ 40))" by simp
  have fl: "nat \<lfloor>rat_of_nat n * 10 ^ 40\<rfloor> = n * 10 ^ 40"
    unfolding s by (simp only: floor_of_int nat_int)
  have c: "rat_of_int (int R * int R + int R) + 1 / 4 \<le> rat_of_nat n * 10 ^ 40
           \<longleftrightarrow> R * R + R < n * 10 ^ 40"
  proof -
    have "int R * int R + int R < int (n * 10 ^ 40) \<longleftrightarrow> R * R + R < n * 10 ^ 40"
      by (metis of_nat_add of_nat_mult of_nat_less_iff)
    thus ?thesis unfolding s by (simp only: quarter_le_iff)
  qed
  have "sqrt_dp (rat_of_nat n) =
          (let s = rat_of_nat n * 10 ^ 40; r = int (floor_sqrt (nat \<lfloor>s\<rfloor>))
           in rat_of_int (if rat_of_int (r * r + r) + 1 / 4 \<le> s then r + 1 else r) / 10 ^ 20)"
    by (simp add: sqrt_dp_def DECIMAL_PLACES_def)
  also have "\<dots> = rat_of_int (if R * R + R < n * 10 ^ 40 then int R + 1 else int R) / 10 ^ 20"
    unfolding Let_def fl R_def [symmetric] c ..
  also have "\<dots> = rat_of_int (int V) / rat_of_int (10 ^ 20)"
    by (simp add: V_def)
  finally have "sqrt_dp (rat_of_nat n) = rat_of_int (int V) / rat_of_int (10 ^ 20)" .
  moreover have "\<not> rat_of_int (int V) / rat_of_int (10 ^ 20) < 0"
    by (simp add: not_less)
  ultimately have "round_down (sqrt_dp (rat_of_nat n)) = int V div 10 ^ 20"
    unfolding round_down_def by (simp only: floor_divide_of_int_eq if_False)
  also have "\<dots> = int (V div 10 ^ 20)" by (simp add: zdiv_int)
  finally show ?thesis by (simp add: V_def)
qed

lemma sqrt_dp_floor:
  fixes n :: nat
  shows "int (floor_sqrt n) \<le> round_down (sqrt_dp (rat_of_nat n))
         \<and> (floor_sqrt n < 10 ^ 20 \<longrightarrow>
              round_down (sqrt_dp (rat_of_nat n)) = int (floor_sqrt n))"
proof -
  define E :: nat where "E = 10 ^ 20"
  define m where "m = floor_sqrt n"
  define R where "R = floor_sqrt (n * (E * E))"
  define V where "V = (if R * R + R < n * (E * E) then R + 1 else R)"
  have EE: "E * E = 10 ^ 40" and Epos: "0 < E" by (simp_all add: E_def)
  have rd: "round_down (sqrt_dp (rat_of_nat n)) = int (V div E)"
    using round_down_sqrt_dp [of n] by (simp add: V_def R_def EE E_def)
  have b: "m * m \<le> n" "n + 1 \<le> (m + 1) * (m + 1)"
    using floor_sqrt_bounds [of n] by (simp_all add: m_def)
  have sq: "\<And>k. (k * E) * (k * E) = k * k * (E * E)" by (simp add: algebra_simps)
  have "(m * E) * (m * E) \<le> n * (E * E)"
    unfolding sq using b(1) by (rule mult_le_mono1)
  hence lo: "m * E \<le> R" unfolding R_def by (rule floor_sqrt_ge)
  have up: "(n + 1) * (E * E) \<le> ((m + 1) * E) * ((m + 1) * E)"
    unfolding sq using b(2) by (rule mult_le_mono1)
  have "n * (E * E) < (n + 1) * (E * E)" using Epos by simp
  with up have "n * (E * E) < ((m + 1) * E) * ((m + 1) * E)" by linarith
  hence hi: "R < (m + 1) * E" unfolding R_def by (rule floor_sqrt_less)
  have RV: "R \<le> V" by (simp add: V_def)
  have "m = (m * E) div E" using Epos by simp
  also have "\<dots> \<le> V div E" using lo RV by (intro div_le_mono) simp
  finally have ge: "m \<le> V div E" .
  have eq: "V div E = m" if small: "m < E"
  proof -
    have "V < (m + 1) * E"
    proof (cases "R * R + R < n * (E * E)")
      case False
      with hi show ?thesis by (simp add: V_def)
    next
      case True
      have "R + 1 \<noteq> (m + 1) * E"
      proof
        assume top: "R + 1 = (m + 1) * E"
        have "(R + 1) * (R + 1) = R * R + R + (R + 1)" by (simp add: algebra_simps)
        hence "((m + 1) * E) * ((m + 1) * E) = R * R + R + (m + 1) * E"
          by (simp only: top)
        moreover have "(m + 1) * E \<le> E * E" using small by (intro mult_le_mono1) simp
        moreover have "(n + 1) * (E * E) = n * (E * E) + E * E" by (simp add: algebra_simps)
        ultimately show False using True up by linarith
      qed
      with hi have "R + 1 < (m + 1) * E" by simp
      with True show ?thesis by (simp add: V_def)
    qed
    moreover have "m * E \<le> V" using lo RV by simp
    ultimately show ?thesis by (intro div_nat_eqI) (simp_all add: mult.commute)
  qed
  from ge eq rd show ?thesis by (simp add: m_def E_def)
qed

lemma getExpectedLiquidityAmount_first:
  "getExpectedLiquidityAmount (amount x) (amount y) (amount 0) (amount 0) (amount 0) =
     (if 18446744073709551615 < \<lfloor>sqrt (real (x * y))\<rfloor> - 1000 then Inl Overflow
      else Inr (Fin (of_int (\<lfloor>sqrt (real (x * y))\<rfloor> - 1000))))"
proof -
  define v where "v = round_down (sqrt_dp (rat_of_nat (x * y)))"
  define m where "m = int (floor_sqrt (x * y))"
  have code: "getExpectedLiquidityAmount (amount x) (amount y) (amount 0) (amount 0) (amount 0) =
     (if 18446744073709551615 < v - 1000 then Inl Overflow
      else Inr (Fin (of_int (v - 1000))))"
  proof -
    have "isGreaterThan (Fin (rat_of_int v - 1000)) U64_MAX \<longleftrightarrow> 18446744073709551615 < v - 1000"
    proof -
      have "rat_of_int 18446744073709551615 < rat_of_int (v - 1000)
            \<longleftrightarrow> 18446744073709551615 < v - 1000"
        by (simp only: of_int_less_iff)
      thus ?thesis by (simp add: isGreaterThan_def U64_MAX_def)
    qed
    moreover have "multipliedBy (amount x) (amount y) = Fin (rat_of_nat (x * y))"
      by (simp add: amount_def)
    moreover have "\<not> rat_of_nat (x * y) < 0" by (simp add: not_less)
    ultimately show ?thesis
      by (simp add: getExpectedLiquidityAmount_def Let_def minus_bn_def v_def)
  qed
  have m: "m = \<lfloor>sqrt (real (x * y))\<rfloor>" unfolding m_def by (rule floor_sqrt_real)
  have f: "m \<le> v" "floor_sqrt (x * y) < 10 ^ 20 \<Longrightarrow> v = m"
    using sqrt_dp_floor [of "x * y"] by (simp_all add: v_def m_def)
  show ?thesis
  proof (cases "18446744073709551615 < m - 1000")
    case True
    with f(1) have "18446744073709551615 < v - 1000" by linarith
    with True show ?thesis unfolding code m [symmetric] by (simp only: if_True)
  next
    case False
    hence "m < 10 ^ 20" by simp
    hence "floor_sqrt (x * y) < 10 ^ 20" unfolding m_def by simp
    hence "v = m" by (rule f(2))
    thus ?thesis unfolding code m [symmetric] by (simp only:)
  qed
qed

lemma getExpectedLiquidityAmount_amount:
  assumes "0 < xr" "0 < yr"
  shows "getExpectedLiquidityAmount (amount x) (amount y) (amount xr) (amount yr) (amount lp) =
     (if 18446744073709551615 < min (quot_dp (lp * x) xr) (quot_dp (lp * y) yr) then Inl Overflow
      else Inr (amount (min (quot_dp (lp * x) xr) (quot_dp (lp * y) yr))))"
  using assms
  by (simp add: getExpectedLiquidityAmount_def Let_def integerValue_dividedBy_amount
      U64_MAX_amount min_def)

lemma floor_sqrt_2000000: "\<lfloor>sqrt (real 2000000)\<rfloor> = 1414"
proof -
  have "floor_sqrt 2000000 = 1414"
    using floor_sqrt_ge [of 1414 2000000] floor_sqrt_less [of 2000000 1415] by simp
  thus ?thesis using floor_sqrt_real [of 2000000] by simp
qed

text \<open>
  Claim C7, as the code has it. With \<open>xReserve = yReserve = lpSupply = 0\<close>,
  \<^verbatim>\<open>getExpectedLiquidityAmount\<close> returns \<open>floor (sqrt (xOpt * yOpt)) - 1000\<close>, a negative
  number when the square root is below 1000, unless that value exceeds \<open>U64_MAX\<close>, when it
  fails with Overflow; \<^verbatim>\<open>getExpectedLiquidityAmount(1000, 2000, 0, 0, 0)\<close> is 414. With both
  reserves positive and below \<open>2 * 10 ^ 20\<close>, which every reserve up to \<open>U64_MAX\<close> is,
  it returns
  \<open>min (floor (lpSupply * xOpt / xReserve)) (floor (lpSupply * yOpt / yReserve))\<close>
  unless that value exceeds \<open>U64_MAX\<close>, when it fails with Overflow.
\<close>

theorem C7_getExpectedLiquidityAmount:
  "getExpectedLiquidityAmount (amount xOpt) (amount yOpt) (amount 0) (amount 0) (amount 0) =
     (if 18446744073709551615 < \<lfloor>sqrt (real (xOpt * yOpt))\<rfloor> - 1000 then Inl Overflow
      else Inr (Fin (of_int (\<lfloor>sqrt (real (xOpt * yOpt))\<rfloor> - 1000))))
   \<and> getExpectedLiquidityAmount (amount 1000) (amount 2000) (amount 0) (amount 0) (amount 0)
       = Inr (amount 414)
   \<and> (0 < xReserve \<and> xReserve < 2 * 10 ^ 20 \<and> 0 < yReserve \<and> yReserve < 2 * 10 ^ 20 \<longrightarrow>
       getExpectedLiquidityAmount (amount xOpt) (amount yOpt) (amount xReserve)
         (amount yReserve) (amount lpSupply) =
       (if 18446744073709551615
             < min (lpSupply * xOpt div xReserve) (lpSupply * yOpt div yReserve)
        then Inl Overflow
        else Inr (amount (min (lpSupply * xOpt div xReserve)
                            (lpSupply * yOpt div yReserve)))))"
proof -
  have "getExpectedLiquidityAmount (amount 1000) (amount 2000) (amount 0) (amount 0) (amount 0)
          = Inr (amount 414)"
    using floor_sqrt_2000000
    by (simp add: getExpectedLiquidityAmount_first) (simp add: amount_def)
  thus ?thesis
    by (simp add: getExpectedLiquidityAmount_first getExpectedLiquidityAmount_amount
        quot_dp_exact)
qed

theorem C7_getExpectedLiquidityAmount_witness:
  "(0::nat) < 1000 \<and> (1000::nat) < 2 * 10 ^ 20 \<and> (0::nat) < 2000 \<and> (2000::nat) < 2 * 10 ^ 20
   \<and> getExpectedLiquidityAmount (amount 100) (amount 200) (amount 1000) (amount 2000)
       (amount 1000) = Inr (amount 100)
   \<and> getExpectedLiquidityAmount (amount 1000) (amount 2000) (amount 0) (amount 0) (amount 0)
       = Inr (amount 414)"
  using C7_getExpectedLiquidityAmount [of 100 200 1000 2000 1000] by simp

text \<open>
  The claim as it is written, that the minimum is returned, fails where the minimum exceeds
  \<open>U64_MAX\<close>: with \<open>xOpt = yOpt = 2\<close>, both reserves 1 and \<open>lpSupply = U64_MAX\<close> the
  minimum is \<open>36893488147419103230\<close> and the function fails with Overflow.
\<close>

theorem C7_getExpectedLiquidityAmount_counterexample:
  "getExpectedLiquidityAmount (amount 2) (amount 2) (amount 1) (amount 1)
     (amount 18446744073709551615) = Inl Overflow
   \<and> min (18446744073709551615 * 2 div 1) (18446744073709551615 * 2 div 1)
       = (36893488147419103230::nat)"
  by (simp add: getExpectedLiquidityAmount_amount quot_dp_def)

end
